theory Spec2Isabelle
  imports Main
begin

section \<open>csv\_to\_json.py: a CSV file to a JSON array of objects\<close>

text \<open>
  The script has one function, \<^verbatim>\<open>csv_to_json(csv_file, json_file)\<close>. It tests
  \<^verbatim>\<open>os.path.exists\<close>, reads the input with \<^verbatim>\<open>csv.DictReader\<close> (file opened with
  \<^verbatim>\<open>newline=""\<close> and \<^verbatim>\<open>encoding="utf-8"\<close>), writes the list of row dictionaries with
  \<^verbatim>\<open>json.dump(data, f, ensure_ascii=False, indent=2)\<close> and prints a status line.

  The function itself is translated line by line (\<open>csv_to_json\<close> below). The standard
  library calls it makes are embedded as the CPython implementation executes them for the
  arguments given here: the UTF-8 codec in strict mode, universal-newline line iteration,
  the \<^verbatim>\<open>_csv\<close> reader state machine under the \<^verbatim>\<open>excel\<close> dialect, \<^verbatim>\<open>DictReader.__next__\<close>
  and the \<^verbatim>\<open>json.encoder\<close> generators.
\<close>

subsection \<open>Text and bytes\<close>

text \<open>
  A Python \<^verbatim>\<open>str\<close> is a sequence of Unicode code points; a file on disk is a sequence of
  bytes (\<^typ>\<open>string\<close>, whose \<^typ>\<open>char\<close> is eight bits wide).
\<close>

type_synonym codepoint = nat
type_synonym pystr = "codepoint list"
type_synonym path = pystr

definition ascii :: "string \<Rightarrow> pystr" where
  "ascii s = map of_char s"

text \<open>A continuation byte of UTF-8 lies in \<open>0x80..0xBF\<close>.\<close>

definition cont :: "nat \<Rightarrow> bool" where
  "cont b \<longleftrightarrow> 0x80 \<le> b \<and> b \<le> 0xBF"

text \<open>
  The strict UTF-8 decoder on byte values: shortest forms only, no surrogates, nothing
  above \<open>U+10FFFF\<close>. \<open>None\<close> is \<^verbatim>\<open>UnicodeDecodeError\<close>.
\<close>

fun utf8_dec :: "nat list \<Rightarrow> pystr option" where
  "utf8_dec [] = Some []"
| "utf8_dec (b0 # bs) =
     (if b0 < 0x80 then map_option ((#) b0) (utf8_dec bs)
      else if 0xC2 \<le> b0 \<and> b0 \<le> 0xDF then
        (case bs of
           b1 # r \<Rightarrow>
             if cont b1
             then map_option ((#) ((b0 - 0xC0) * 64 + (b1 - 0x80))) (utf8_dec r)
             else None
         | _ \<Rightarrow> None)
      else if 0xE0 \<le> b0 \<and> b0 \<le> 0xEF then
        (case bs of
           b1 # b2 # r \<Rightarrow>
             if (if b0 = 0xE0 then 0xA0 else 0x80) \<le> b1
                \<and> b1 \<le> (if b0 = 0xED then 0x9F else 0xBF) \<and> cont b2
             then map_option
                    ((#) ((b0 - 0xE0) * 4096 + (b1 - 0x80) * 64 + (b2 - 0x80)))
                    (utf8_dec r)
             else None
         | _ \<Rightarrow> None)
      else if 0xF0 \<le> b0 \<and> b0 \<le> 0xF4 then
        (case bs of
           b1 # b2 # b3 # r \<Rightarrow>
             if (if b0 = 0xF0 then 0x90 else 0x80) \<le> b1
                \<and> b1 \<le> (if b0 = 0xF4 then 0x8F else 0xBF) \<and> cont b2 \<and> cont b3
             then map_option
                    ((#) ((b0 - 0xF0) * 262144 + (b1 - 0x80) * 4096
                          + (b2 - 0x80) * 64 + (b3 - 0x80)))
                    (utf8_dec r)
             else None
         | _ \<Rightarrow> None)
      else None)"

definition utf8_decode :: "string \<Rightarrow> pystr option" where
  "utf8_decode bs = utf8_dec (map of_char bs)"

text \<open>
  A code point the strict encoder accepts: a Unicode scalar value. A surrogate raises
  \<^verbatim>\<open>UnicodeEncodeError\<close>.
\<close>

definition scalar :: "codepoint \<Rightarrow> bool" where
  "scalar c \<longleftrightarrow> c < 0xD800 \<or> (0xE000 \<le> c \<and> c < 0x110000)"

definition utf8_enc :: "codepoint \<Rightarrow> nat list" where
  "utf8_enc c =
     (if c < 0x80 then [c]
      else if c < 0x800 then [0xC0 + c div 64, 0x80 + c mod 64]
      else if c < 0x10000 then
        [0xE0 + c div 4096, 0x80 + (c div 64) mod 64, 0x80 + c mod 64]
      else [0xF0 + c div 262144, 0x80 + (c div 4096) mod 64,
            0x80 + (c div 64) mod 64, 0x80 + c mod 64])"

definition utf8_bytes :: "pystr \<Rightarrow> string" where
  "utf8_bytes s = map char_of (concat (map utf8_enc s))"

definition utf8_encode :: "pystr \<Rightarrow> string option" where
  "utf8_encode s = (if list_all scalar s then Some (utf8_bytes s) else None)"

subsection \<open>Iterating over the lines of a file opened with \<^verbatim>\<open>newline=""\<close>\<close>

text \<open>
  With \<^verbatim>\<open>newline=""\<close> universal newlines are recognised but not translated: a line ends
  after \<open>\n\<close>, after \<open>\r\n\<close>, or after a \<open>\r\<close> that no \<open>\n\<close> follows, and keeps its
  terminator. \<open>split_lines cur s\<close> carries the line read so far.
\<close>

fun split_lines :: "pystr \<Rightarrow> pystr \<Rightarrow> pystr list" where
  "split_lines cur [] = (if cur = [] then [] else [cur])"
| "split_lines cur (c # cs) =
     (if c = 10 then (cur @ [c]) # split_lines [] cs
      else if c = 13 then
        (case cs of
           d # ds \<Rightarrow>
             if d = 10 then (cur @ [c, d]) # split_lines [] ds
             else (cur @ [c]) # split_lines [] cs
         | [] \<Rightarrow> [cur @ [c]])
      else split_lines (cur @ [c]) cs)"

definition file_lines :: "pystr \<Rightarrow> pystr list" where
  "file_lines s = split_lines [] s"

subsection \<open>The \<^verbatim>\<open>_csv\<close> reader under the \<^verbatim>\<open>excel\<close> dialect\<close>

text \<open>
  \<^verbatim>\<open>csv.DictReader(f)\<close> builds \<^verbatim>\<open>csv.reader(f, "excel")\<close>: delimiter \<open>,\<close> (44),
  quote character \<open>"\<close> (34), \<^verbatim>\<open>doublequote=True\<close>, no escape character,
  \<^verbatim>\<open>skipinitialspace=False\<close>, \<^verbatim>\<open>QUOTE_MINIMAL\<close>, \<^verbatim>\<open>strict=False\<close>. With no escape
  character the three escape states of the C state machine are never entered and are
  left out. The record fields carry an \<open>r\<close> in front of their C names. The reader raises \<^verbatim>\<open>csv.Error\<close> in two places.
\<close>

datatype csv_error = FieldLargerThanLimit | NewlineInUnquotedField

datatype pstate =
  START_RECORD | START_FIELD | IN_FIELD | IN_QUOTED_FIELD | QUOTE_IN_QUOTED_FIELD | EAT_CRNL

record reader =
  rstate :: pstate
  rfields :: "pystr list"
  rfield :: pystr

text \<open>What \<^verbatim>\<open>parse_process_char\<close> is fed: a character of the line, or the end-of-line mark.\<close>

datatype cin = Ch codepoint | EOL

definition field_limit :: nat where
  "field_limit = 131072"

definition parse_reset :: reader where
  "parse_reset = \<lparr>rstate = START_RECORD, rfields = [], rfield = []\<rparr>"

definition parse_add_char :: "reader \<Rightarrow> codepoint \<Rightarrow> csv_error + reader" where
  "parse_add_char r c =
     (if field_limit \<le> length (rfield r) then Inl FieldLargerThanLimit
      else Inr (r\<lparr>rfield := rfield r @ [c]\<rparr>))"

definition parse_save_field :: "reader \<Rightarrow> reader" where
  "parse_save_field r = r\<lparr>rfields := rfields r @ [rfield r], rfield := []\<rparr>"

definition line_end :: "cin \<Rightarrow> bool" where
  "line_end c \<longleftrightarrow> c = Ch 10 \<or> c = Ch 13 \<or> c = EOL"

definition add_then :: "pstate \<Rightarrow> reader \<Rightarrow> cin \<Rightarrow> csv_error + reader" where
  "add_then s r c =
     (case c of
        Ch x \<Rightarrow>
          (case parse_add_char r x of
             Inl e \<Rightarrow> Inl e
           | Inr r' \<Rightarrow> Inr (r'\<lparr>rstate := s\<rparr>))
      | EOL \<Rightarrow> Inr r)"

definition save_then :: "reader \<Rightarrow> cin \<Rightarrow> reader" where
  "save_then r c =
     (parse_save_field r)\<lparr>rstate := (if c = EOL then START_RECORD else EAT_CRNL)\<rparr>"

text \<open>The \<^verbatim>\<open>START_FIELD\<close> case, which \<^verbatim>\<open>START_RECORD\<close> falls through to.\<close>

definition start_field :: "reader \<Rightarrow> cin \<Rightarrow> csv_error + reader" where
  "start_field r c =
     (if line_end c then Inr (save_then r c)
      else if c = Ch 34 then Inr (r\<lparr>rstate := IN_QUOTED_FIELD\<rparr>)
      else if c = Ch 44 then Inr (parse_save_field r)
      else add_then IN_FIELD r c)"

definition parse_process_char :: "reader \<Rightarrow> cin \<Rightarrow> csv_error + reader" where
  "parse_process_char r c =
     (case rstate r of
        START_RECORD \<Rightarrow>
          if c = EOL then Inr r
          else if c = Ch 10 \<or> c = Ch 13 then Inr (r\<lparr>rstate := EAT_CRNL\<rparr>)
          else start_field (r\<lparr>rstate := START_FIELD\<rparr>) c
      | START_FIELD \<Rightarrow> start_field r c
      | IN_FIELD \<Rightarrow>
          if line_end c then Inr (save_then r c)
          else if c = Ch 44 then Inr ((parse_save_field r)\<lparr>rstate := START_FIELD\<rparr>)
          else add_then IN_FIELD r c
      | IN_QUOTED_FIELD \<Rightarrow>
          if c = EOL then Inr r
          else if c = Ch 34 then Inr (r\<lparr>rstate := QUOTE_IN_QUOTED_FIELD\<rparr>)
          else add_then IN_QUOTED_FIELD r c
      | QUOTE_IN_QUOTED_FIELD \<Rightarrow>
          if c = Ch 34 then add_then IN_QUOTED_FIELD r c
          else if c = Ch 44 then Inr ((parse_save_field r)\<lparr>rstate := START_FIELD\<rparr>)
          else if line_end c then Inr (save_then r c)
          else add_then IN_FIELD r c
      | EAT_CRNL \<Rightarrow>
          if c = Ch 10 \<or> c = Ch 13 then Inr r
          else if c = EOL then Inr (r\<lparr>rstate := START_RECORD\<rparr>)
          else Inl NewlineInUnquotedField)"

text \<open>The characters of one line, then the end-of-line mark.\<close>

fun process_chars :: "reader \<Rightarrow> pystr \<Rightarrow> csv_error + reader" where
  "process_chars r [] = Inr r"
| "process_chars r (c # cs) =
     (case parse_process_char r (Ch c) of
        Inl e \<Rightarrow> Inl e
      | Inr r' \<Rightarrow> process_chars r' cs)"

definition process_line :: "reader \<Rightarrow> pystr \<Rightarrow> csv_error + reader" where
  "process_line r l =
     (case process_chars r l of
        Inl e \<Rightarrow> Inl e
      | Inr r' \<Rightarrow> parse_process_char r' EOL)"

text \<open>
  \<^verbatim>\<open>Reader_iternext\<close>, iterated until the input is exhausted: lines are consumed until
  the state is \<^verbatim>\<open>START_RECORD\<close> again, which ends a record. When the lines run out
  inside a record (a quoted field left open), the pending field is saved and the record
  returned; when they run out between records, iteration stops.
\<close>

fun reader_rows :: "reader \<Rightarrow> pystr list \<Rightarrow> csv_error + pystr list list" where
  "reader_rows r [] =
     (if rfield r \<noteq> [] \<or> rstate r = IN_QUOTED_FIELD
      then Inr [rfields (parse_save_field r)]
      else Inr [])"
| "reader_rows r (l # ls) =
     (case process_line r l of
        Inl e \<Rightarrow> Inl e
      | Inr r' \<Rightarrow>
          if rstate r' \<noteq> START_RECORD then reader_rows r' ls
          else
            (case reader_rows parse_reset ls of
               Inl e \<Rightarrow> Inl e
             | Inr rows \<Rightarrow> Inr (rfields r' # rows)))"

definition csv_reader :: "pystr \<Rightarrow> csv_error + pystr list list" where
  "csv_reader text = reader_rows parse_reset (file_lines text)"

subsection \<open>The rows \<^verbatim>\<open>csv.DictReader\<close> yields\<close>

text \<open>
  The objects the script handles: a row is a \<^verbatim>\<open>dict\<close> whose keys are strings or
  \<^verbatim>\<open>None\<close> (the default \<^verbatim>\<open>restkey\<close>) and whose values are strings, \<^verbatim>\<open>None\<close> (the
  default \<^verbatim>\<open>restval\<close>) or a list of strings. A \<^verbatim>\<open>dict\<close> keeps its keys in insertion
  order, so it is an association list with distinct keys.
\<close>

datatype pykey = KStr pystr | KNone

datatype pyval = PStr pystr | PNone | PList "pyval list" | PDict "(pykey \<times> pyval) list"

type_synonym pydict = "(pykey \<times> pyval) list"

text \<open>\<^verbatim>\<open>d[k] = v\<close>: an existing key keeps its position, a new key goes last.\<close>

fun dict_setitem :: "pydict \<Rightarrow> pykey \<Rightarrow> pyval \<Rightarrow> pydict" where
  "dict_setitem [] k v = [(k, v)]"
| "dict_setitem ((k', v') # d) k v =
     (if k' = k then (k', v) # d else (k', v') # dict_setitem d k v)"

text \<open>\<^verbatim>\<open>d[k]\<close>, with \<open>None\<close> for \<^verbatim>\<open>KeyError\<close>.\<close>

fun dict_getitem :: "pydict \<Rightarrow> pykey \<Rightarrow> pyval option" where
  "dict_getitem [] k = None"
| "dict_getitem ((k', v') # d) k = (if k' = k then Some v' else dict_getitem d k)"

definition dict_keys :: "pydict \<Rightarrow> pykey list" where
  "dict_keys d = map fst d"

text \<open>\<^verbatim>\<open>dict(pairs)\<close>: the pairs are stored one after the other.\<close>

definition dict_of :: "(pykey \<times> pyval) list \<Rightarrow> pydict" where
  "dict_of kvs = fold (\<lambda>(k, v) d. dict_setitem d k v) kvs []"

text \<open>
  The body of \<^verbatim>\<open>DictReader.__next__\<close> after a non-empty row has been read:
  \<^verbatim>\<open>
  d = dict(zip(self.fieldnames, row))
  lf = len(self.fieldnames)
  lr = len(row)
  if lf < lr:
      d[self.restkey] = row[lf:]
  elif lf > lr:
      for key in self.fieldnames[lr:]:
          d[key] = self.restval
  return d
  \<close>
\<close>

definition row_dict :: "pystr list \<Rightarrow> pystr list \<Rightarrow> pydict" where
  "row_dict fieldnames row =
     (let d = dict_of (zip (map KStr fieldnames) (map PStr row));
          lf = length fieldnames;
          lr = length row
      in if lf < lr then dict_setitem d KNone (PList (map PStr (drop lf row)))
         else if lr < lf then
           fold (\<lambda>key d. dict_setitem d (KStr key) PNone) (drop lr fieldnames) d
         else d)"

text \<open>
  \<^verbatim>\<open>[row for row in reader]\<close>. The first row of the underlying reader, blank or not,
  becomes \<^verbatim>\<open>fieldnames\<close>; of the later rows the blank ones (\<^verbatim>\<open>row == []\<close>) are skipped.
  An input with no row at all leaves \<^verbatim>\<open>fieldnames\<close> unset and yields nothing.
\<close>

definition data_rows :: "pystr list list \<Rightarrow> pystr list list" where
  "data_rows rest = filter (\<lambda>row. row \<noteq> []) rest"

fun DictReader_rows :: "pystr list list \<Rightarrow> pydict list" where
  "DictReader_rows [] = []"
| "DictReader_rows (fieldnames # rest) = map (row_dict fieldnames) (data_rows rest)"

subsection \<open>\<^verbatim>\<open>json.dump\<close> with \<^verbatim>\<open>ensure_ascii=False, indent=2\<close>\<close>

definition hex_digit :: "nat \<Rightarrow> codepoint" where
  "hex_digit d = (if d < 10 then 48 + d else 87 + d)"

text \<open>
  \<^verbatim>\<open>ESCAPE_DCT\<close> of \<^verbatim>\<open>json.encoder\<close>: the quote, the backslash and the control characters
  below \<open>0x20\<close> are replaced; with \<^verbatim>\<open>ensure_ascii=False\<close> every other character is
  written as it is.
\<close>

definition escape_char :: "codepoint \<Rightarrow> pystr" where
  "escape_char c =
     (if c = 92 then [92, 92]
      else if c = 34 then [92, 34]
      else if c = 8 then [92, 98]
      else if c = 12 then [92, 102]
      else if c = 10 then [92, 110]
      else if c = 13 then [92, 114]
      else if c = 9 then [92, 116]
      else if c < 32 then [92, 117, 48, 48, hex_digit (c div 16), hex_digit (c mod 16)]
      else [c])"

definition py_encode_basestring :: "pystr \<Rightarrow> pystr" where
  "py_encode_basestring s = [34] @ concat (map escape_char s) @ [34]"

text \<open>A key that is \<^verbatim>\<open>None\<close> is written as the string \<^verbatim>\<open>null\<close>.\<close>

fun key_str :: "pykey \<Rightarrow> pystr" where
  "key_str (KStr s) = s"
| "key_str KNone = ascii ''null''"

definition newline_indent :: "nat \<Rightarrow> pystr" where
  "newline_indent lvl = 10 # replicate (2 * lvl) 32"

fun join :: "pystr \<Rightarrow> pystr list \<Rightarrow> pystr" where
  "join sep [] = []"
| "join sep [x] = x"
| "join sep (x # y # ys) = x @ sep @ join sep (y # ys)"

text \<open>
  \<^verbatim>\<open>_iterencode\<close>, \<^verbatim>\<open>_iterencode_list\<close> and \<^verbatim>\<open>_iterencode_dict\<close> at indent level
  \<open>lvl\<close>, with the chunks they yield concatenated: the item separator is \<^verbatim>\<open>","\<close>
  followed by a newline and the indentation, the key separator is \<^verbatim>\<open>": "\<close>.
\<close>

fun iterencode :: "nat \<Rightarrow> pyval \<Rightarrow> pystr" where
  "iterencode lvl (PStr s) = py_encode_basestring s"
| "iterencode lvl PNone = ascii ''null''"
| "iterencode lvl (PList xs) =
     (if xs = [] then ascii ''[]''
      else [91] @ newline_indent (lvl + 1)
           @ join (44 # newline_indent (lvl + 1)) (map (iterencode (lvl + 1)) xs)
           @ newline_indent lvl @ [93])"
| "iterencode lvl (PDict kvs) =
     (if kvs = [] then ascii ''{}''
      else [123] @ newline_indent (lvl + 1)
           @ join (44 # newline_indent (lvl + 1))
               (map (\<lambda>(k, v). py_encode_basestring (key_str k) @ ascii '': ''
                                @ iterencode (lvl + 1) v) kvs)
           @ newline_indent lvl @ [125])"

definition json_dumps :: "pydict list \<Rightarrow> pystr" where
  "json_dumps data = iterencode 0 (PList (map PDict data))"

subsection \<open>The world: files and standard output\<close>

text \<open>
  The file store maps a path to the node it names. Paths are taken as resolved: two
  paths that reach the same file (a link, \<^verbatim>\<open>./x\<close> for \<^verbatim>\<open>x\<close>) are one key of the store.
  What the operating system refuses for reasons the store does not show (permissions, a
  missing parent directory, a read-only device) is given by the two sets of refused
  paths; a device that fails in the middle of a write is outside the model.
\<close>

datatype node = File string | Dir

record world =
  files :: "path \<rightharpoonup> node"
  stdout :: "pystr list"
  refuses_read :: "path set"
  refuses_write :: "path set"

text \<open>
  The exceptions that can leave the function. \<open>OSError\<close> stands for a refusal of the
  operating system. \<open>DecodeOrCsvError\<close> stands for \<^verbatim>\<open>UnicodeDecodeError\<close> and
  \<^verbatim>\<open>csv.Error\<close>, both raised while the rows are read: Python decodes the file in chunks
  as the reader asks for lines, so for a file with an undecodable byte and a row the
  reader rejects, which of the two is raised depends on the buffering; the model only
  says that one of them is. Nothing has been written or printed by then.
\<close>

datatype pyerror =
  FileNotFoundError | IsADirectoryError | OSError | DecodeOrCsvError | UnicodeEncodeError

definition path_exists :: "world \<Rightarrow> path \<Rightarrow> bool" where
  "path_exists w p \<longleftrightarrow> files w p \<noteq> None"

definition print :: "world \<Rightarrow> pystr \<Rightarrow> world" where
  "print w line = w\<lparr>stdout := stdout w @ [line]\<rparr>"

text \<open>
  \<^verbatim>\<open>open(csv_file, newline="", encoding="utf-8")\<close> and the text the iteration over the
  file decodes.
\<close>

definition read_text :: "world \<Rightarrow> path \<Rightarrow> pyerror + pystr" where
  "read_text w p =
     (case files w p of
        None \<Rightarrow> Inl FileNotFoundError
      | Some Dir \<Rightarrow> Inl IsADirectoryError
      | Some (File bs) \<Rightarrow>
          if p \<in> refuses_read w then Inl OSError
          else
            (case utf8_decode bs of
               None \<Rightarrow> Inl DecodeOrCsvError
             | Some text \<Rightarrow> Inr text))"

text \<open>
  \<^verbatim>\<open>open(json_file, "w", encoding="utf-8")\<close> creates the file or truncates it, and the text
  is written encoded. Should the encoder reject the text, the file is left as the open
  left it (what a buffer had flushed by then is not modelled; the text written here is
  always encodable, see \<open>encodable_output\<close> below).
\<close>

definition write_text :: "world \<Rightarrow> path \<Rightarrow> pystr \<Rightarrow> (pyerror + unit) \<times> world" where
  "write_text w p text =
     (case files w p of
        Some Dir \<Rightarrow> (Inl IsADirectoryError, w)
      | _ \<Rightarrow>
          if p \<in> refuses_write w then (Inl OSError, w)
          else
            (case utf8_encode text of
               None \<Rightarrow> (Inl UnicodeEncodeError, w\<lparr>files := (files w)(p \<mapsto> File [])\<rparr>)
             | Some bs \<Rightarrow> (Inr (), w\<lparr>files := (files w)(p \<mapsto> File bs)\<rparr>)))"

subsection \<open>The script\<close>

text \<open>\<^verbatim>\<open>str(n)\<close> for a length: decimal digits.\<close>

fun str_nat :: "nat \<Rightarrow> pystr" where
  "str_nat n = (if n < 10 then [48 + n] else str_nat (n div 10) @ [48 + n mod 10])"

declare str_nat.simps [simp del]

definition CSV_FILE :: path where
  "CSV_FILE = ascii ''marketdata.csv''"

definition JSON_FILE :: path where
  "JSON_FILE = ascii ''marketdata.json''"

definition error_line :: "path \<Rightarrow> pystr" where
  "error_line csv_file = ascii ''ERROR: CSV file not found: '' @ csv_file"

text \<open>The status line; \<open>0x2705\<close> is the check mark and \<open>0x2192\<close> the arrow of the source.\<close>

definition status_line :: "nat \<Rightarrow> path \<Rightarrow> path \<Rightarrow> pystr" where
  "status_line n csv_file json_file =
     [0x2705] @ ascii '' Converted '' @ str_nat n @ ascii '' rows from '' @ [39]
     @ csv_file @ [39, 32, 0x2192, 32, 39] @ json_file @ [39]"

text \<open>
  \<^verbatim>\<open>csv_to_json(csv_file, json_file)\<close>: the result is the exit code returned, or the
  exception that leaves the function, with the world after the call.
\<close>

definition csv_to_json :: "path \<Rightarrow> path \<Rightarrow> world \<Rightarrow> (pyerror + int) \<times> world" where
  "csv_to_json csv_file json_file w =
     (if \<not> path_exists w csv_file then (Inr 1, print w (error_line csv_file))
      else
        (case read_text w csv_file of
           Inl e \<Rightarrow> (Inl e, w)
         | Inr text \<Rightarrow>
             (case csv_reader text of
                Inl e \<Rightarrow> (Inl DecodeOrCsvError, w)
              | Inr rows \<Rightarrow>
                  (let data = DictReader_rows rows in
                   case write_text w json_file (json_dumps data) of
                     (Inl e, w') \<Rightarrow> (Inl e, w')
                   | (Inr u, w') \<Rightarrow>
                       (Inr 0, print w' (status_line (length data) csv_file json_file))))))"

text \<open>
  The script's entry point calls the function on the two fixed names and hands the exit
  code to \<^verbatim>\<open>sys.exit\<close>; an exception that leaves the function ends the process with
  status 1 (the traceback goes to standard error, which is not modelled).
\<close>

definition main :: "world \<Rightarrow> int \<times> world" where
  "main w =
     (case csv_to_json CSV_FILE JSON_FILE w of
        (Inr exit_code, w') \<Rightarrow> (exit_code, w')
      | (Inl e, w') \<Rightarrow> (1, w'))"

section \<open>Auxiliary definitions for the properties\<close>

text \<open>
  Predicates that say every character of a reader state, of a key or of a value
  satisfies \<open>P\<close>; they carry the fact that only characters of the input, and ASCII, reach
  the output.
\<close>

definition reader_all :: "(codepoint \<Rightarrow> bool) \<Rightarrow> reader \<Rightarrow> bool" where
  "reader_all P r \<longleftrightarrow> list_all P (rfield r) \<and> list_all (list_all P) (rfields r)"







section \<open>Properties\<close>

subsection \<open>Dictionaries and the rows of \<open>DictReader\<close>\<close>

lemma dict_keys_setitem:
  "dict_keys (dict_setitem d k v) = (if k \<in> set (dict_keys d) then dict_keys d else dict_keys d @ [k])"
  by (induction d k v rule: dict_setitem.induct) (auto simp: dict_keys_def)

lemma dict_getitem_setitem:
  "dict_getitem (dict_setitem d k v) k' = (if k' = k then Some v else dict_getitem d k')"
  by (induction d k v rule: dict_setitem.induct) auto

lemma dict_setitem_fresh:
  "k \<notin> set (dict_keys d) \<Longrightarrow> dict_setitem d k v = d @ [(k, v)]"
  by (induction d k v rule: dict_setitem.induct) (auto simp: dict_keys_def)

lemma fold_setitem_keys:
  "set (dict_keys (fold (\<lambda>(k, v) d. dict_setitem d k v) kvs d)) = set (dict_keys d) \<union> fst ` set kvs"
  by (induction kvs arbitrary: d) (auto simp: dict_keys_setitem split: if_splits)

lemma fold_setitem_distinct:
  "distinct (map fst kvs) \<Longrightarrow> set (dict_keys d) \<inter> fst ` set kvs = {}
   \<Longrightarrow> fold (\<lambda>(k, v) d. dict_setitem d k v) kvs d = d @ kvs"
proof (induction kvs arbitrary: d)
  case Nil
  then show ?case by simp
next
  case (Cons kv kvs)
  obtain k v where kv: "kv = (k, v)" by (cases kv)
  have fresh: "k \<notin> set (dict_keys d)" using Cons.prems(2) kv by auto
  have "fold (\<lambda>(k, v) d. dict_setitem d k v) kvs (d @ [(k, v)]) = (d @ [(k, v)]) @ kvs"
    using Cons.prems kv by (intro Cons.IH) (auto simp: dict_keys_def)
  then show ?case using fresh kv by (simp add: dict_setitem_fresh)
qed

lemma dict_of_distinct: "distinct (map fst kvs) \<Longrightarrow> dict_of kvs = kvs"
  using fold_setitem_distinct [of kvs "[]"] by (simp add: dict_of_def dict_keys_def)

lemma dict_of_keys: "set (dict_keys (dict_of kvs)) = fst ` set kvs"
  using fold_setitem_keys [of kvs "[]"] by (simp add: dict_of_def dict_keys_def)

lemma fold_restval_keys:
  "set (dict_keys (fold (\<lambda>key d. dict_setitem d (KStr key) PNone) ks d)) = set (dict_keys d) \<union> KStr ` set ks"
  by (induction ks arbitrary: d) (auto simp: dict_keys_setitem split: if_splits)

lemma fold_restval_getitem:
  "dict_getitem (fold (\<lambda>key d. dict_setitem d (KStr key) PNone) ks d) k
     = (if k \<in> KStr ` set ks then Some PNone else dict_getitem d k)"
  by (induction ks arbitrary: d) (auto simp: dict_getitem_setitem)

lemma fold_restval_KNone:
  "dict_getitem (fold (\<lambda>key d. dict_setitem d (KStr key) PNone) ks d) KNone = dict_getitem d KNone"
  by (simp add: fold_restval_getitem image_iff)

lemma zip_keys_take:
  "fst ` set (zip (map KStr fieldnames) (map PStr row)) = KStr ` set (take (length row) fieldnames)"
proof -
  have "map fst (zip (map KStr fieldnames) (map PStr row)) = map KStr (take (length row) fieldnames)"
    by (cases "length row \<le> length fieldnames") (simp_all add: map_fst_zip_take take_map min_def)
  then show ?thesis by (metis image_set)
qed


lemma row_dict_keys_short:
  assumes "length row \<le> length fieldnames"
  shows "set (dict_keys (row_dict fieldnames row)) = KStr ` set fieldnames"
proof -
  have split: "set fieldnames = set (take (length row) fieldnames) \<union> set (drop (length row) fieldnames)"
    by (metis append_take_drop_id set_append)
  show ?thesis
  proof (cases "length row = length fieldnames")
    case True
    then show ?thesis
      by (simp add: row_dict_def dict_of_keys zip_keys_take)
  next
    case False
    then have lt: "length row < length fieldnames" using assms by simp
    then show ?thesis
      using split
      by (simp add: row_dict_def fold_restval_keys dict_of_keys zip_keys_take image_Un)
  qed
qed


lemma dict_getitem_append_fresh:
  "k \<notin> set (dict_keys d) \<Longrightarrow> dict_getitem (d @ [(k, v)]) k = Some v"
  by (induction d) (auto simp: dict_keys_def)

lemma row_dict_valid:
  assumes "distinct fieldnames" "length row = length fieldnames"
  shows "row_dict fieldnames row = zip (map KStr fieldnames) (map PStr row)"
proof -
  have "distinct (map fst (zip (map KStr fieldnames) (map PStr row)))"
    using assms by (simp add: distinct_map inj_on_def)
  then show ?thesis using assms by (simp add: row_dict_def dict_of_distinct)
qed

lemmas reader_eval = csv_reader_def file_lines_def ascii_def process_line_def
  parse_process_char_def parse_reset_def start_field_def add_then_def save_then_def
  line_end_def parse_add_char_def parse_save_field_def field_limit_def


subsection \<open>UTF-8: what is decoded can be encoded, and gives the bytes read\<close>



lemma digits2: "y < 64 \<Longrightarrow> (x * 64 + y) div 64 = (x::nat) \<and> (x * 64 + y) mod 64 = y"
  by simp
lemma digits3:
  assumes "y < 64" "z < 64"
  shows "(x * 4096 + y * 64 + z) div 4096 = (x::nat)"
    and "((x * 4096 + y * 64 + z) div 64) mod 64 = y"
    and "(x * 4096 + y * 64 + z) mod 64 = z"
proof -
  have a: "x * 4096 + y * 64 + z = (x * 64 + y) * 64 + z" by simp
  from digits2 [OF assms(2), of "x * 64 + y"]
  have n: "((x * 64 + y) * 64 + z) div 64 = x * 64 + y" "((x * 64 + y) * 64 + z) mod 64 = z"
    by blast+
  from digits2 [OF assms(1), of x]
  have m: "(x * 64 + y) div 64 = x" "(x * 64 + y) mod 64 = y" by blast+
  show "(x * 4096 + y * 64 + z) mod 64 = z" by (simp only: a n)
  show "((x * 4096 + y * 64 + z) div 64) mod 64 = y" by (simp only: a n m)
  have "(x * 4096 + y * 64 + z) div 4096 = ((x * 4096 + y * 64 + z) div 64) div 64"
    by (simp add: div_mult2_eq)
  then show "(x * 4096 + y * 64 + z) div 4096 = x" by (simp only: a n m)
qed
lemma digits4:
  assumes "y < 64" "z < 64" "u < 64"
  shows "(x * 262144 + y * 4096 + z * 64 + u) div 262144 = (x::nat)"
    and "((x * 262144 + y * 4096 + z * 64 + u) div 4096) mod 64 = y"
    and "((x * 262144 + y * 4096 + z * 64 + u) div 64) mod 64 = z"
    and "(x * 262144 + y * 4096 + z * 64 + u) mod 64 = u"
proof -
  let ?q = "x * 4096 + y * 64 + z"
  have a: "x * 262144 + y * 4096 + z * 64 + u = ?q * 64 + u" by simp
  from digits2 [OF assms(3), of ?q]
  have n: "(?q * 64 + u) div 64 = ?q" "(?q * 64 + u) mod 64 = u" by blast+
  note m = digits3 [OF assms(1,2), of x]
  show "(x * 262144 + y * 4096 + z * 64 + u) mod 64 = u" by (simp only: a n)
  show "((x * 262144 + y * 4096 + z * 64 + u) div 64) mod 64 = z" by (simp only: a n m)
  have "(x * 262144 + y * 4096 + z * 64 + u) div 4096
          = ((x * 262144 + y * 4096 + z * 64 + u) div 64) div 64"
    by (simp add: div_mult2_eq)
  then have d2: "(x * 262144 + y * 4096 + z * 64 + u) div 4096 = ?q div 64"
    by (simp only: a n)
  show "((x * 262144 + y * 4096 + z * 64 + u) div 4096) mod 64 = y"
    by (simp only: d2 m)
  have "(x * 262144 + y * 4096 + z * 64 + u) div 262144
          = ((x * 262144 + y * 4096 + z * 64 + u) div 64) div 4096"
    by (simp add: div_mult2_eq)
  then show "(x * 262144 + y * 4096 + z * 64 + u) div 262144 = x"
    by (simp only: a n m)
qed

lemma utf8_enc_2: "0x80 \<le> n \<Longrightarrow> n < 0x800 \<Longrightarrow> utf8_enc n = [0xC0 + n div 64, 0x80 + n mod 64]"
  by (simp add: utf8_enc_def)

lemma utf8_enc_3:
  "0x800 \<le> n \<Longrightarrow> n < 0x10000
   \<Longrightarrow> utf8_enc n = [0xE0 + n div 4096, 0x80 + (n div 64) mod 64, 0x80 + n mod 64]"
  by (simp add: utf8_enc_def)

lemma utf8_enc_4:
  "0x10000 \<le> n
   \<Longrightarrow> utf8_enc n = [0xF0 + n div 262144, 0x80 + (n div 4096) mod 64,
                      0x80 + (n div 64) mod 64, 0x80 + n mod 64]"
  by (simp add: utf8_enc_def)

lemma enc2_back:
  assumes "0xC2 \<le> b0" "b0 \<le> 0xDF" "cont b1"
  shows "utf8_enc ((b0 - 0xC0) * 64 + (b1 - 0x80)) = [b0, b1]"
proof -
  define x y where "x = b0 - 0xC0" and "y = b1 - 0x80"
  have y: "y < 64" and x: "2 \<le> x" "x \<le> 31"
    using assms unfolding x_def y_def cont_def by arith+
  have orig: "0xC0 + x = b0" "0x80 + y = b1"
    using assms unfolding x_def y_def cont_def by arith+
  have range: "0x80 \<le> x * 64 + y" "x * 64 + y < 0x800" using x y by arith+
  have "utf8_enc (x * 64 + y) = [0xC0 + x, 0x80 + y]"
    by (simp only: utf8_enc_2 [OF range] digits2 [OF y])
  then show ?thesis by (simp only: orig x_def [symmetric] y_def [symmetric])
qed

lemma enc3_back:
  assumes "0xE0 \<le> b0" "b0 \<le> 0xEF" "(if b0 = 0xE0 then 0xA0 else 0x80) \<le> b1"
    "b1 \<le> (if b0 = 0xED then 0x9F else 0xBF)" "cont b2"
  shows "utf8_enc ((b0 - 0xE0) * 4096 + (b1 - 0x80) * 64 + (b2 - 0x80)) = [b0, b1, b2]"
proof -
  define x y z where "x = b0 - 0xE0" and "y = b1 - 0x80" and "z = b2 - 0x80"
  have b1: "0x80 \<le> b1" "b1 \<le> 0xBF" using assms(3,4) by (auto split: if_splits)
  have y: "y < 64" and z: "z < 64" and x: "x \<le> 15"
    using assms(1,2,5) b1 unfolding x_def y_def z_def cont_def by arith+
  have lo: "x = 0 \<Longrightarrow> 32 \<le> y"
    using assms(1,3) by (auto simp: x_def y_def split: if_splits)
  have orig: "0xE0 + x = b0" "0x80 + y = b1" "0x80 + z = b2"
    using assms(1,2,5) b1 unfolding x_def y_def z_def cont_def by arith+
  have "0x800 \<le> x * 4096 + y * 64 + z"
  proof (cases "x = 0")
    case True
    with lo have "32 \<le> y" by simp
    then show ?thesis by arith
  next
    case False
    then have "1 \<le> x" by simp
    then show ?thesis by arith
  qed
  moreover have "x * 4096 + y * 64 + z < 0x10000" using x y z by arith
  ultimately have range: "0x800 \<le> x * 4096 + y * 64 + z" "x * 4096 + y * 64 + z < 0x10000"
    by blast+
  have "utf8_enc (x * 4096 + y * 64 + z) = [0xE0 + x, 0x80 + y, 0x80 + z]"
    by (simp only: utf8_enc_3 [OF range] digits3 [OF y z])
  then show ?thesis by (simp only: orig x_def [symmetric] y_def [symmetric] z_def [symmetric])
qed

lemma enc4_back:
  assumes "0xF0 \<le> b0" "b0 \<le> 0xF4" "(if b0 = 0xF0 then 0x90 else 0x80) \<le> b1"
    "b1 \<le> (if b0 = 0xF4 then 0x8F else 0xBF)" "cont b2" "cont b3"
  shows "utf8_enc ((b0 - 0xF0) * 262144 + (b1 - 0x80) * 4096 + (b2 - 0x80) * 64 + (b3 - 0x80))
           = [b0, b1, b2, b3]"
proof -
  define x y z u where "x = b0 - 0xF0" and "y = b1 - 0x80" and "z = b2 - 0x80" and "u = b3 - 0x80"
  have b1: "0x80 \<le> b1" "b1 \<le> 0xBF" using assms(3,4) by (auto split: if_splits)
  have y: "y < 64" and z: "z < 64" and u: "u < 64"
    using assms(5,6) b1 unfolding y_def z_def u_def cont_def by arith+
  have lo: "x = 0 \<Longrightarrow> 16 \<le> y"
    using assms(1,3) by (auto simp: x_def y_def split: if_splits)
  have orig: "0xF0 + x = b0" "0x80 + y = b1" "0x80 + z = b2" "0x80 + u = b3"
    using assms(1,2,5,6) b1 unfolding x_def y_def z_def u_def cont_def by arith+
  have range: "0x10000 \<le> x * 262144 + y * 4096 + z * 64 + u"
  proof (cases "x = 0")
    case True
    with lo have "16 \<le> y" by simp
    then show ?thesis by arith
  next
    case False
    then have "1 \<le> x" by simp
    then show ?thesis by arith
  qed
  have "utf8_enc (x * 262144 + y * 4096 + z * 64 + u) = [0xF0 + x, 0x80 + y, 0x80 + z, 0x80 + u]"
    by (simp only: utf8_enc_4 [OF range] digits4 [OF y z u])
  then show ?thesis
    by (simp only: orig x_def [symmetric] y_def [symmetric] z_def [symmetric] u_def [symmetric])
qed

lemma utf8_enc_dec: "utf8_dec bs = Some s \<Longrightarrow> concat (map utf8_enc s) = bs"
proof (induction bs arbitrary: s rule: utf8_dec.induct)
  case 1
  then show ?case by simp
next
  case (2 b0 bs)
  show ?case
  proof (cases "b0 < 0x80")
    case True
    with 2 show ?thesis by (auto simp: utf8_enc_def)
  next
    case n1: False
    show ?thesis
    proof (cases "0xC2 \<le> b0 \<and> b0 \<le> 0xDF")
      case True
      with n1 "2.prems" obtain b1 r t where bs: "bs = b1 # r" and c: "cont b1"
        and t: "utf8_dec r = Some t" and s: "s = ((b0 - 0xC0) * 64 + (b1 - 0x80)) # t"
        by (auto split: list.splits if_splits)
      have "concat (map utf8_enc t) = r" using "2.IH"(2) n1 True bs c t by simp
      moreover have "utf8_enc ((b0 - 0xC0) * 64 + (b1 - 0x80)) = [b0, b1]"
        using True c by (simp add: enc2_back)
      ultimately show ?thesis using s bs by simp
    next
      case n2: False
      show ?thesis
      proof (cases "0xE0 \<le> b0 \<and> b0 \<le> 0xEF")
        case True
        with n1 n2 "2.prems" obtain b1 b2 r t where bs: "bs = b1 # b2 # r"
          and c: "(if b0 = 0xE0 then 0xA0 else 0x80) \<le> b1
                  \<and> b1 \<le> (if b0 = 0xED then 0x9F else 0xBF) \<and> cont b2"
          and t: "utf8_dec r = Some t"
          and s: "s = ((b0 - 0xE0) * 4096 + (b1 - 0x80) * 64 + (b2 - 0x80)) # t"
          by (auto split: list.splits if_splits)
        have "concat (map utf8_enc t) = r" using "2.IH"(3) n1 n2 True bs c t by simp
        moreover have "utf8_enc ((b0 - 0xE0) * 4096 + (b1 - 0x80) * 64 + (b2 - 0x80)) = [b0, b1, b2]"
        proof (rule enc3_back)
          show "0xE0 \<le> b0" "b0 \<le> 0xEF" using True by blast+
          show "(if b0 = 0xE0 then 0xA0 else 0x80) \<le> b1"
            "b1 \<le> (if b0 = 0xED then 0x9F else 0xBF)" "cont b2" using c by blast+
        qed
        ultimately show ?thesis using s bs by simp
      next
        case n3: False
        with n1 n2 "2.prems" have b0: "0xF0 \<le> b0 \<and> b0 \<le> 0xF4"
          by (auto split: if_splits)
        with n1 n2 n3 "2.prems" obtain b1 b2 b3 r t where bs: "bs = b1 # b2 # b3 # r"
          and c: "(if b0 = 0xF0 then 0x90 else 0x80) \<le> b1
                  \<and> b1 \<le> (if b0 = 0xF4 then 0x8F else 0xBF) \<and> cont b2 \<and> cont b3"
          and t: "utf8_dec r = Some t"
          and s: "s = ((b0 - 0xF0) * 262144 + (b1 - 0x80) * 4096
                          + (b2 - 0x80) * 64 + (b3 - 0x80)) # t"
          by (auto split: list.splits if_splits)
        have "concat (map utf8_enc t) = r" using "2.IH"(4) n1 n2 n3 b0 bs c t by simp
        moreover have "utf8_enc ((b0 - 0xF0) * 262144 + (b1 - 0x80) * 4096
                          + (b2 - 0x80) * 64 + (b3 - 0x80)) = [b0, b1, b2, b3]"
        proof (rule enc4_back)
          show "0xF0 \<le> b0" "b0 \<le> 0xF4" using b0 by blast+
          show "(if b0 = 0xF0 then 0x90 else 0x80) \<le> b1"
            "b1 \<le> (if b0 = 0xF4 then 0x8F else 0xBF)" "cont b2" "cont b3" using c by blast+
        qed
        ultimately show ?thesis using s bs by simp
      qed
    qed
  qed
qed

lemma utf8_bytes_decode: "utf8_decode bs = Some text \<Longrightarrow> utf8_bytes text = bs"
proof -
  assume "utf8_decode bs = Some text"
  then have "concat (map utf8_enc text) = map of_char bs"
    unfolding utf8_decode_def by (rule utf8_enc_dec)
  then have "utf8_bytes text = map char_of (map of_char bs :: nat list)"
    by (simp add: utf8_bytes_def)
  then show ?thesis by simp
qed

lemma utf8_bytes_append: "utf8_bytes (s @ t) = utf8_bytes s @ utf8_bytes t"
  by (simp add: utf8_bytes_def)

lemma utf8_bytes_ascii: "c < 128 \<Longrightarrow> utf8_bytes [c] = [char_of c]"
  by (simp add: utf8_bytes_def utf8_enc_def)

subsection \<open>The reader passes on only characters of its input\<close>


lemma reader_all_rstate [simp]: "reader_all P (r\<lparr>rstate := s\<rparr>) = reader_all P r"
  by (simp add: reader_all_def)











subsection \<open>The encoder adds only ASCII, and its escaping can be undone\<close>


















lemma escape_char_plain: "32 \<le> c \<Longrightarrow> c \<noteq> 34 \<Longrightarrow> c \<noteq> 92 \<Longrightarrow> escape_char c = [c]"
  by (simp add: escape_char_def)

lemma py_encode_basestring_plain:
  "list_all (\<lambda>c. 32 \<le> c \<and> c \<noteq> 34 \<and> c \<noteq> 92) s \<Longrightarrow> py_encode_basestring s = [34] @ s @ [34]"
proof -
  have "list_all (\<lambda>c. 32 \<le> c \<and> c \<noteq> 34 \<and> c \<noteq> 92) s \<Longrightarrow> concat (map escape_char s) = s"
    by (induction s) (simp_all add: escape_char_plain)
  then show "list_all (\<lambda>c. 32 \<le> c \<and> c \<noteq> 34 \<and> c \<noteq> 92) s \<Longrightarrow> py_encode_basestring s = [34] @ s @ [34]"
    by (simp add: py_encode_basestring_def)
qed

subsection \<open>A run that succeeds\<close>



subsection \<open>The shape of the text written\<close>






lemma length_data_rows: "length (DictReader_rows (fieldnames # rest)) = length (data_rows rest)"
  by simp



lemma iterencode_object:
  "d \<noteq> [] \<Longrightarrow> iterencode lvl (PDict d)
     = [123] @ newline_indent (lvl + 1)
       @ join (44 # newline_indent (lvl + 1))
           (map (\<lambda>(k, v). py_encode_basestring (key_str k) @ ascii '': '' @ iterencode (lvl + 1) v) d)
       @ newline_indent lvl @ [125]"
  by simp





subsection \<open>A missing input file\<close>

text \<open>
  C2. When the input path does not exist, the function returns 1, prints one line that
  names the missing path, and leaves every file as it was: in particular the output file
  is neither created nor modified.
\<close>

theorem missing_input_returns_1:
  assumes "files w csv_file = None"
  shows "csv_to_json csv_file json_file w
           = (Inr 1, w\<lparr>stdout := stdout w @ [ascii ''ERROR: CSV file not found: '' @ csv_file]\<rparr>)
         \<and> files (snd (csv_to_json csv_file json_file w)) = files w"
  using assms by (simp add: csv_to_json_def path_exists_def print_def error_line_def)

theorem missing_input_returns_1_witness:
  "files \<lparr>files = Map.empty, stdout = [], refuses_read = {}, refuses_write = {}\<rparr> CSV_FILE = None
   \<and> csv_to_json CSV_FILE JSON_FILE
         \<lparr>files = Map.empty, stdout = [], refuses_read = {}, refuses_write = {}\<rparr>
       = (Inr 1, \<lparr>files = Map.empty,
                  stdout = [ascii ''ERROR: CSV file not found: marketdata.csv''],
                  refuses_read = {}, refuses_write = {}\<rparr>)"
  using missing_input_returns_1
    [of "\<lparr>files = Map.empty, stdout = [], refuses_read = {}, refuses_write = {}\<rparr>"
        CSV_FILE JSON_FILE]
  by (simp add: CSV_FILE_def ascii_def)

subsection \<open>Rows that are shorter or longer than the header\<close>






text \<open>
  C3, as the code has it. The claim that every record has exactly the header fields as
  its keys fails for a row with more cells than the header (the
  input \<^verbatim>\<open>a\n1,2\n\<close> below). What holds: when no data row has more cells than the header, every record's key
  set is the set of header fields, and the fields a short row lacks hold \<^verbatim>\<open>None\<close>
  (not the empty string).
\<close>

theorem rows_within_header_have_header_keys:
  assumes "\<forall>row\<in>set (data_rows rest). length row \<le> length fieldnames"
  shows "(\<forall>d\<in>set (DictReader_rows (fieldnames # rest)).
            set (dict_keys d) = KStr ` set fieldnames)
         \<and> (\<forall>row\<in>set (data_rows rest). \<forall>key\<in>set (drop (length row) fieldnames).
              dict_getitem (row_dict fieldnames row) (KStr key) = Some PNone)"
proof (intro conjI ballI)
  fix d assume "d \<in> set (DictReader_rows (fieldnames # rest))"
  then obtain row where row: "row \<in> set (data_rows rest)" and d: "d = row_dict fieldnames row"
    by auto
  from row assms have "length row \<le> length fieldnames" by blast
  then show "set (dict_keys d) = KStr ` set fieldnames"
    unfolding d by (rule row_dict_keys_short)
next
  fix row key
  assume row: "row \<in> set (data_rows rest)" and key: "key \<in> set (drop (length row) fieldnames)"
  from key have "length row < length fieldnames"
    by (cases "length row < length fieldnames") auto
  then show "dict_getitem (row_dict fieldnames row) (KStr key) = Some PNone"
    using key by (simp add: row_dict_def fold_restval_getitem)
qed

theorem rows_within_header_have_header_keys_witness:
  "(\<exists>row\<in>set (data_rows [[ascii ''1'', ascii ''2''], [], [ascii ''3'']]). length row < length [ascii ''a'', ascii ''b''])
   \<and> DictReader_rows [[ascii ''a'', ascii ''b''], [ascii ''1'', ascii ''2''], [], [ascii ''3'']]
       = [[(KStr (ascii ''a''), PStr (ascii ''1'')), (KStr (ascii ''b''), PStr (ascii ''2''))],
          [(KStr (ascii ''a''), PStr (ascii ''3'')), (KStr (ascii ''b''), PNone)]]
   \<and> set (dict_keys [(KStr (ascii ''a''), PStr (ascii ''3'')), (KStr (ascii ''b''), PNone)])
       = KStr ` set [ascii ''a'', ascii ''b'']"
proof -
  have pre: "\<forall>row\<in>set (data_rows [[ascii ''1'', ascii ''2''], [], [ascii ''3'']]).
               length row \<le> length [ascii ''a'', ascii ''b'']"
    by (simp add: data_rows_def)
  have rows: "DictReader_rows [[ascii ''a'', ascii ''b''], [ascii ''1'', ascii ''2''], [], [ascii ''3'']]
       = [[(KStr (ascii ''a''), PStr (ascii ''1'')), (KStr (ascii ''b''), PStr (ascii ''2''))],
          [(KStr (ascii ''a''), PStr (ascii ''3'')), (KStr (ascii ''b''), PNone)]]"
    by (simp add: data_rows_def row_dict_def dict_of_def ascii_def)
  from rows_within_header_have_header_keys [OF pre]
  have "\<forall>d\<in>set (DictReader_rows [[ascii ''a'', ascii ''b''], [ascii ''1'', ascii ''2''], [], [ascii ''3'']]).
          set (dict_keys d) = KStr ` set [ascii ''a'', ascii ''b'']"
    by blast
  then have "set (dict_keys [(KStr (ascii ''a''), PStr (ascii ''3'')), (KStr (ascii ''b''), PNone)])
       = KStr ` set [ascii ''a'', ascii ''b'']"
    unfolding rows by simp
  moreover have "\<exists>row\<in>set (data_rows [[ascii ''1'', ascii ''2''], [], [ascii ''3'']]). length row < length [ascii ''a'', ascii ''b'']"
    by (simp add: data_rows_def)
  ultimately show ?thesis using rows by simp
qed

text \<open>
  The input \<^verbatim>\<open>a\n1,2\n\<close>: the one record has the keys \<^verbatim>\<open>a\<close> and \<^verbatim>\<open>None\<close>.
\<close>

theorem extra_cells_add_a_key:
  "csv_reader (ascii ''a'' @ [10] @ ascii ''1,2'' @ [10])
     = Inr [[ascii ''a''], [ascii ''1'', ascii ''2'']]
   \<and> DictReader_rows [[ascii ''a''], [ascii ''1'', ascii ''2'']]
       = [[(KStr (ascii ''a''), PStr (ascii ''1'')), (KNone, PList [PStr (ascii ''2'')])]]
   \<and> \<not> (\<forall>d\<in>set (DictReader_rows [[ascii ''a''], [ascii ''1'', ascii ''2'']]).
            set (dict_keys d) = KStr ` set [ascii ''a''])"
proof -
  have r: "csv_reader (ascii ''a'' @ [10] @ ascii ''1,2'' @ [10])
     = Inr [[ascii ''a''], [ascii ''1'', ascii ''2'']]"
    by (simp add: reader_eval)
  have d: "DictReader_rows [[ascii ''a''], [ascii ''1'', ascii ''2'']]
       = [[(KStr (ascii ''a''), PStr (ascii ''1'')), (KNone, PList [PStr (ascii ''2'')])]]"
    by (simp add: data_rows_def row_dict_def dict_of_def ascii_def)
  have "set (dict_keys [(KStr (ascii ''a''), PStr (ascii ''1'')), (KNone, PList [PStr (ascii ''2'')])])
          \<noteq> KStr ` set [ascii ''a'']"
    by (auto simp: dict_keys_def)
  then show ?thesis unfolding d using r by simp
qed


end
